theory Spec2Isabelle
  imports Main "HOL-Library.Sublist"
begin

section \<open>Upload status entries\<close>

text \<open>
  The two upload components, \<^verbatim>\<open>FileUpload\<close> (second part of
  \<^verbatim>\<open>src/frontend/components/Login.tsx\<close>) and \<^verbatim>\<open>GlobalDocumentUpload\<close>
  (\<^verbatim>\<open>src/unnamed/part_001\<close>), keep a React state \<^verbatim>\<open>uploadingFiles\<close>, an object from locally
  generated keys to status entries. Both are the same code up to the texts of the
  messages, the name of the success callback and the field \<^verbatim>\<open>filename\<close>, which only
  \<^verbatim>\<open>GlobalDocumentUpload\<close> sets; the parameter of type \<open>component\<close> selects one of them.
\<close>

datatype upload_status = Uploading | Processing | Ready | Error

text \<open>
  Modelled from the spec: the type \<^verbatim>\<open>ProcessingStatus\<close> of the entries of \<^verbatim>\<open>FileUpload\<close> is
  declared in \<^verbatim>\<open>types/api\<close>, which is not among the sources. The specification gives it a
  document id, a status among \<^verbatim>\<open>uploading\<close>, \<^verbatim>\<open>processing\<close>, \<^verbatim>\<open>ready\<close> and \<^verbatim>\<open>error\<close>, a
  message and optional metadata; the component stores an entry of status \<^verbatim>\<open>uploading\<close> in
  a mapping of this type and renders \<^verbatim>\<open>status.metadata\<close>, which agrees with it.
  \<^verbatim>\<open>GlobalDocumentUpload\<close> declares its own entry type \<^verbatim>\<open>UploadStatus\<close>, with the same
  statuses and an optional \<^verbatim>\<open>filename\<close>. One record covers both. A field that a JavaScript
  object may lack is an \<open>option\<close>; \<open>document_id\<close> is one of them, because the object spread
  of a missing entry (\<^verbatim>\<open>{...prev[fileId], status, message}\<close>) produces an object without it.
\<close>

record 'm ProcessingStatus =
  document_id :: "string option"
  status :: upload_status
  message :: string
  filename :: "string option"
  metadata :: "'m option"

datatype component = FileUpload | GlobalDocumentUpload

text \<open>
  The user-visible messages. A \<open>char\<close> is a byte, so every accented letter of the French
  texts is written as its two UTF-8 bytes.
\<close>

definition e_acute :: string where
  "e_acute = [char_of (195::nat), char_of (169::nat)]"

definition uploading_message :: "component \<Rightarrow> string" where
  "uploading_message c = (case c of
     FileUpload \<Rightarrow> ''T'' @ e_acute @ ''l'' @ e_acute @ ''chargement s'' @ e_acute @ ''curis''
        @ e_acute @ '' en cours...''
   | GlobalDocumentUpload \<Rightarrow> ''T'' @ e_acute @ ''l'' @ e_acute @ ''chargement s'' @ e_acute
        @ ''curis'' @ e_acute @ '' vers la base globale...'')"

definition upload_error_fallback :: "component \<Rightarrow> string" where
  "upload_error_fallback c = (case c of
     FileUpload \<Rightarrow> ''Erreur lors du t'' @ e_acute @ ''l'' @ e_acute @ ''chargement s''
        @ e_acute @ ''curis'' @ e_acute
   | GlobalDocumentUpload \<Rightarrow> ''Erreur lors du t'' @ e_acute @ ''l'' @ e_acute
        @ ''chargement global'')"

definition timeout_message :: "component \<Rightarrow> string" where
  "timeout_message c = (case c of
     FileUpload \<Rightarrow> ''Timeout: Le traitement s'' @ e_acute @ ''curis'' @ e_acute
        @ '' prend trop de temps''
   | GlobalDocumentUpload \<Rightarrow> ''Timeout: Le traitement global prend trop de temps'')"

definition communication_error_message :: "component \<Rightarrow> string" where
  "communication_error_message c = (case c of
     FileUpload \<Rightarrow> ''Erreur de communication s'' @ e_acute @ ''curis'' @ e_acute
        @ ''e avec le serveur''
   | GlobalDocumentUpload \<Rightarrow> ''Erreur de communication avec le serveur global'')"

section \<open>Effects of the upload handlers\<close>

text \<open>
  An asynchronous handler is modelled by the sequence of effects it performs, in the order
  in which they happen. Every \<^verbatim>\<open>setUploadingFiles\<close> call of the source passes an updater
  function of the previous state, so each one is an effect of its own:
  \<^item> \<open>SetEntry k v\<close> is \<^verbatim>\<open>prev => ({...prev, [k]: v})\<close>;
  \<^item> \<open>PatchEntry k st m\<close> is \<^verbatim>\<open>prev => ({...prev, [k]: {...prev[k], status: st, message: m}})\<close>;
  \<^item> \<open>DeleteEntry k\<close> is \<^verbatim>\<open>prev => { const n = {...prev}; delete n[k]; return n }\<close>;
  \<^item> \<open>UploadRequest name\<close> and \<open>GetProcessingStatus d\<close> are the calls of the API client;
  \<^item> \<open>Delay ms\<close> is the time a \<^verbatim>\<open>setTimeout(f, ms)\<close> waits before the effects of \<open>f\<close>;
  \<^item> \<open>SuccessCallback\<close> is the call of \<^verbatim>\<open>onFileUploaded()\<close> (\<^verbatim>\<open>onUploadSuccess()\<close>).
\<close>

datatype 'm effect =
    SetEntry string "'m ProcessingStatus"
  | PatchEntry string upload_status string
  | DeleteEntry string
  | UploadRequest string
  | GetProcessingStatus string
  | Delay nat
  | SuccessCallback

text \<open>
  The state the effects act on: the React state \<^verbatim>\<open>uploadingFiles\<close>, and what the rest of
  the world has seen of the component: the time elapsed in milliseconds, the number of
  calls of the success callback and the document ids of the status requests sent.
\<close>

record 'm uploads =
  uploadingFiles :: "string \<rightharpoonup> 'm ProcessingStatus"
  clock :: nat
  success_calls :: nat
  status_requests :: "string list"

definition patch_entry ::
  "'m ProcessingStatus option \<Rightarrow> upload_status \<Rightarrow> string \<Rightarrow> 'm ProcessingStatus" where
  "patch_entry old st m = (case old of
     None \<Rightarrow> \<lparr>document_id = None, status = st, message = m, filename = None, metadata = None\<rparr>
   | Some e \<Rightarrow> e\<lparr>status := st, message := m\<rparr>)"

fun perform :: "'m effect \<Rightarrow> 'm uploads \<Rightarrow> 'm uploads" where
  "perform (SetEntry k v) s = s\<lparr>uploadingFiles := (uploadingFiles s)(k \<mapsto> v)\<rparr>"
| "perform (PatchEntry k st m) s =
     s\<lparr>uploadingFiles := (uploadingFiles s)(k \<mapsto> patch_entry (uploadingFiles s k) st m)\<rparr>"
| "perform (DeleteEntry k) s = s\<lparr>uploadingFiles := (uploadingFiles s)(k := None)\<rparr>"
| "perform (UploadRequest name) s = s"
| "perform (GetProcessingStatus d) s = s\<lparr>status_requests := status_requests s @ [d]\<rparr>"
| "perform (Delay ms) s = s\<lparr>clock := clock s + ms\<rparr>"
| "perform SuccessCallback s = s\<lparr>success_calls := Suc (success_calls s)\<rparr>"

fun run :: "'m effect list \<Rightarrow> 'm uploads \<Rightarrow> 'm uploads" where
  "run [] s = s"
| "run (e # es) s = run es (perform e s)"

section \<open>Outcomes of API calls\<close>

text \<open>
  Every call of the API client returns a promise. The \<^verbatim>\<open>await\<close> on it either continues with
  the resolved value, throws the rejection into the enclosing \<^verbatim>\<open>catch\<close>, or never continues
  when the promise never settles.
\<close>

datatype ('e, 'a) settled = Resolved 'a | Rejected 'e | NeverSettles

section \<open>The status polling loop\<close>

text \<open>
  \<^verbatim>\<open>pollProcessingStatus\<close> sets \<^verbatim>\<open>maxAttempts = 60\<close> and \<^verbatim>\<open>attempts = 0\<close> and calls its inner
  function \<^verbatim>\<open>poll\<close>, which calls itself again through \<^verbatim>\<open>setTimeout(poll, 2000)\<close>. One call
  of \<^verbatim>\<open>poll\<close> awaits the status request; on an answer it stores the fetched entry, then
  \<^item> on \<^verbatim>\<open>ready\<close> it sets a timer of 3000 ms whose function deletes the entry and calls the
    success callback, and returns;
  \<^item> on \<^verbatim>\<open>error\<close> it returns;
  \<^item> otherwise it increments \<^verbatim>\<open>attempts\<close> and, if \<^verbatim>\<open>attempts < maxAttempts\<close> then, sets the
    timer of the next call, else stores the timeout error;

  and when the request throws, the \<^verbatim>\<open>catch\<close> block stores the communication error.

  The server is a function from the number of the status request within one loop (counted
  from 0) to the outcome of \<^verbatim>\<open>apiService.getProcessingStatus(documentId)\<close>. The loop sends
  its requests one after the other and increments \<^verbatim>\<open>attempts\<close> once for each request that
  was answered with a status other than \<^verbatim>\<open>ready\<close> and \<^verbatim>\<open>error\<close>, so the request sent when
  \<^verbatim>\<open>attempts\<close> is \<open>n\<close> is request number \<open>n\<close>. The parameter \<open>fname\<close> is the third
  argument of \<^verbatim>\<open>GlobalDocumentUpload\<close>'s loop; \<^verbatim>\<open>FileUpload\<close>'s loop has none and ignores it.
\<close>

definition maxAttempts :: nat where
  "maxAttempts = 60"

definition fetched_entry ::
  "component \<Rightarrow> string \<Rightarrow> 'm ProcessingStatus \<Rightarrow> 'm ProcessingStatus" where
  "fetched_entry c fname st = (case c of
     FileUpload \<Rightarrow> st
   | GlobalDocumentUpload \<Rightarrow> st\<lparr>filename := Some fname\<rparr>)"

function poll ::
  "component \<Rightarrow> (nat \<Rightarrow> ('e, 'm ProcessingStatus) settled) \<Rightarrow> string \<Rightarrow> string \<Rightarrow> string \<Rightarrow> nat
    \<Rightarrow> 'm effect list"
  where
  "poll c server fileId documentId fname attempts =
     GetProcessingStatus documentId #
     (case server attempts of
        NeverSettles \<Rightarrow> []
      | Rejected err \<Rightarrow> [PatchEntry fileId Error (communication_error_message c)]
      | Resolved st \<Rightarrow>
          SetEntry fileId (fetched_entry c fname st) #
          (if status st = Ready then [Delay 3000, DeleteEntry fileId, SuccessCallback]
           else if status st = Error then []
           else if Suc attempts < maxAttempts
             then Delay 2000 # poll c server fileId documentId fname (Suc attempts)
             else [PatchEntry fileId Error (timeout_message c)]))"
  by pat_completeness auto
termination
  by (relation "measure (\<lambda>(c, server, fileId, documentId, fname, attempts). maxAttempts - attempts)")
     auto

declare poll.simps [simp del]

definition pollProcessingStatus ::
  "component \<Rightarrow> (nat \<Rightarrow> ('e, 'm ProcessingStatus) settled) \<Rightarrow> string \<Rightarrow> string \<Rightarrow> string
    \<Rightarrow> 'm effect list" where
  "pollProcessingStatus c server fileId documentId fname =
     poll c server fileId documentId fname 0"

section \<open>Starting an upload\<close>

text \<open>
  The local key is \<^verbatim>\<open>`${file.name}-${Date.now()}`\<close>: the file name, a hyphen and the decimal
  digits of the current time in milliseconds.
\<close>

definition digit_char :: "nat \<Rightarrow> char" where
  "digit_char d = char_of (48 + d)"

fun decimal :: "nat \<Rightarrow> string" where
  "decimal n = (if n < 10 then [digit_char n] else decimal (n div 10) @ [digit_char (n mod 10)])"

declare decimal.simps [simp del]

definition fileId_of :: "string \<Rightarrow> nat \<Rightarrow> string" where
  "fileId_of name t = name @ ''-'' @ decimal t"

definition new_entry ::
  "component \<Rightarrow> string \<Rightarrow> upload_status \<Rightarrow> string \<Rightarrow> string \<Rightarrow> 'm ProcessingStatus" where
  "new_entry c did st msg name =
     \<lparr>document_id = Some did, status = st, message = msg,
      filename = (case c of FileUpload \<Rightarrow> None | GlobalDocumentUpload \<Rightarrow> Some name),
      metadata = None\<rparr>"

text \<open>
  The upload request resolves with the pair of \<^verbatim>\<open>document_id\<close> and \<^verbatim>\<open>message\<close> of the
  response, or rejects with \<^verbatim>\<open>error.response?.data?.detail\<close> (possibly missing). The
  message shown is \<^verbatim>\<open>detail || fallback\<close>, so an empty detail shows the fallback too.
\<close>

definition upload_error_message :: "component \<Rightarrow> string option \<Rightarrow> string" where
  "upload_error_message c detail = (case detail of
     None \<Rightarrow> upload_error_fallback c
   | Some d \<Rightarrow> if d = [] then upload_error_fallback c else d)"

definition handleFileUpload ::
  "component \<Rightarrow> string \<Rightarrow> nat \<Rightarrow> (string option, string \<times> string) settled
    \<Rightarrow> (nat \<Rightarrow> ('e, 'm ProcessingStatus) settled) \<Rightarrow> 'm effect list" where
  "handleFileUpload c name now upload server =
     (let fileId = fileId_of name now in
      SetEntry fileId (new_entry c fileId Uploading (uploading_message c) name) #
      UploadRequest name #
      (case upload of
         NeverSettles \<Rightarrow> []
       | Rejected detail \<Rightarrow>
           [SetEntry fileId (new_entry c fileId Error (upload_error_message c detail) name)]
       | Resolved (documentId, msg) \<Rightarrow>
           SetEntry fileId (new_entry c documentId Processing msg name) #
           pollProcessingStatus c server fileId documentId name))"

section \<open>Observations of one upload\<close>

text \<open>
  The number of status requests in a sequence of effects, and the answers after which the
  loop goes on: a resolved request whose status is neither \<^verbatim>\<open>ready\<close> nor \<^verbatim>\<open>error\<close>.
\<close>

fun is_status_request :: "'m effect \<Rightarrow> bool" where
  "is_status_request (GetProcessingStatus d) = True"
| "is_status_request e = False"

definition fetch_count :: "'m effect list \<Rightarrow> nat" where
  "fetch_count es = length (filter is_status_request es)"

definition answers_nonterminal :: "('e, 'm ProcessingStatus) settled \<Rightarrow> bool" where
  "answers_nonterminal r = (case r of
     Resolved st \<Rightarrow> status st \<noteq> Ready \<and> status st \<noteq> Error
   | Rejected err \<Rightarrow> False
   | NeverSettles \<Rightarrow> False)"

text \<open>
  The statuses the view layer sees under key \<open>k\<close>: the status of the entry after each
  effect, while the entry exists.
\<close>

fun observed :: "string \<Rightarrow> 'm effect list \<Rightarrow> 'm uploads \<Rightarrow> upload_status list" where
  "observed k [] s = []"
| "observed k (e # es) s =
     (case uploadingFiles (perform e s) k of None \<Rightarrow> [] | Some v \<Rightarrow> [status v])
       @ observed k es (perform e s)"

text \<open>
  The fields of an entry other than status and message, as the view layer reads them
  (\<^verbatim>\<open>uploadingFiles[k]?.document_id\<close> and so on): all missing when there is no entry.
\<close>

definition other_fields ::
  "'m ProcessingStatus option \<Rightarrow> string option \<times> string option \<times> 'm option" where
  "other_fields entry = (case entry of
     None \<Rightarrow> (None, None, None)
   | Some e \<Rightarrow> (document_id e, filename e, metadata e))"

text \<open>The state of a freshly mounted upload component.\<close>

definition no_uploads :: "'m uploads" where
  "no_uploads = \<lparr>uploadingFiles = Map.empty, clock = 0, success_calls = 0, status_requests = []\<rparr>"

text \<open>The key an effect writes in \<^verbatim>\<open>uploadingFiles\<close>, if it writes one.\<close>

fun effect_key :: "'m effect \<Rightarrow> string option" where
  "effect_key (SetEntry k v) = Some k"
| "effect_key (PatchEntry k st m) = Some k"
| "effect_key (DeleteEntry k) = Some k"
| "effect_key e = None"

section \<open>The employee dashboard\<close>

text \<open>
  The handlers of \<^verbatim>\<open>src/frontend/components/EmployeeDashboard.tsx\<close>.

  Modelled from the spec: \<^verbatim>\<open>ChatSession\<close> is declared in \<^verbatim>\<open>types/api\<close>, which is not among the
  sources; its fields are those of the data model of the specification (\<open>id\<close> is written
  \<open>session_id\<close>, since \<open>id\<close> is the identity function of HOL). The handlers never look into
  a chat message or a document, so these stay type parameters.
\<close>

text \<open>
  The title and the preview are the texts the sidebar lower-cases and searches, so they are
  JavaScript strings in full: sequences of UTF-16 code units, each a number below 65536.
\<close>

type_synonym utf16 = "nat list"

record ChatSession =
  session_id :: string
  title :: utf16
  preview :: "utf16 option"
  message_count :: nat
  updated_at :: string

record ('msg, 'doc) dashboard =
  sessions :: "ChatSession list"
  currentSession :: "ChatSession option"
  messages :: "'msg list"
  documents :: "'doc list"
  showDocumentManager :: bool

text \<open>
  Each handler takes the outcome of the API call it awaits. A rejection is caught and
  logged, leaving the state as it is.
\<close>

definition loadSessions ::
  "('e, ChatSession list) settled \<Rightarrow> ('msg, 'doc) dashboard \<Rightarrow> ('msg, 'doc) dashboard" where
  "loadSessions getChatSessions s = (case getChatSessions of
     Resolved fetched \<Rightarrow> s\<lparr>sessions := fetched\<rparr>
   | Rejected err \<Rightarrow> s
   | NeverSettles \<Rightarrow> s)"

definition loadDocuments ::
  "('e, 'doc list) settled \<Rightarrow> ('msg, 'doc) dashboard \<Rightarrow> ('msg, 'doc) dashboard" where
  "loadDocuments getDocuments s = (case getDocuments of
     Resolved fetched \<Rightarrow> s\<lparr>documents := fetched\<rparr>
   | Rejected err \<Rightarrow> s
   | NeverSettles \<Rightarrow> s)"

definition createNewChat ::
  "('e, ChatSession) settled \<Rightarrow> ('msg, 'doc) dashboard \<Rightarrow> ('msg, 'doc) dashboard" where
  "createNewChat createChatSession s = (case createChatSession of
     Resolved newSession \<Rightarrow>
       s\<lparr>sessions := newSession # sessions s, currentSession := Some newSession, messages := []\<rparr>
   | Rejected err \<Rightarrow> s
   | NeverSettles \<Rightarrow> s)"

text \<open>
  \<^verbatim>\<open>deleteSession\<close> compares \<^verbatim>\<open>currentSession?.id\<close> with the deleted id. The handler is a
  closure of the render that created it, so \<open>seen\<close> is the current session of that render;
  the session list is updated through an updater function of the latest list.
\<close>

definition deleteSession ::
  "ChatSession option \<Rightarrow> ('e, unit) settled \<Rightarrow> string \<Rightarrow> ('msg, 'doc) dashboard
    \<Rightarrow> ('msg, 'doc) dashboard" where
  "deleteSession seen deleteChatSession sessionId s = (case deleteChatSession of
     Resolved u \<Rightarrow>
       (let s' = s\<lparr>sessions := filter (\<lambda>x. session_id x \<noteq> sessionId) (sessions s)\<rparr>
        in if map_option session_id seen = Some sessionId
           then s'\<lparr>currentSession := None, messages := []\<rparr>
           else s')
   | Rejected err \<Rightarrow> s
   | NeverSettles \<Rightarrow> s)"

text \<open>
  The function the dashboard passes to the document manager as \<^verbatim>\<open>onDocumentChange\<close>: it
  calls \<^verbatim>\<open>loadDocuments()\<close> and closes the manager. The document manager
  (\<^verbatim>\<open>src/frontend/components/documentManager.tsx\<close>) hands it to \<^verbatim>\<open>FileUpload\<close> as
  \<^verbatim>\<open>onFileUploaded\<close> and to \<^verbatim>\<open>DocumentList\<close> as \<^verbatim>\<open>onDocumentDeleted\<close>, so it is what the
  effects \<open>SuccessCallback\<close> and \<open>DocumentDeletedCallback\<close> call there.
\<close>

definition onDocumentChange ::
  "('e, 'doc list) settled \<Rightarrow> ('msg, 'doc) dashboard \<Rightarrow> ('msg, 'doc) dashboard" where
  "onDocumentChange getDocuments s = (loadDocuments getDocuments s)\<lparr>showDocumentManager := False\<rparr>"

section \<open>The personal document list\<close>

text \<open>
  \<^verbatim>\<open>DocumentList\<close> (\<^verbatim>\<open>src/frontend/components/DocumentList.tsx\<close>) keeps the set
  \<^verbatim>\<open>deletingIds\<close> of the documents whose delete request is in flight. The effects of its
  delete handler are the two updates of that set, the request, the callback
  \<^verbatim>\<open>onDocumentDeleted()\<close> and the \<^verbatim>\<open>alert\<close> of the \<^verbatim>\<open>catch\<close> block.
\<close>

datatype doc_effect =
    AddDeleting string
  | DeleteDocumentRequest string
  | DocumentDeletedCallback
  | Alert string
  | RemoveDeleting string

record doc_list =
  deletingIds :: "string set"
  alerts :: "string list"
  deleted_callbacks :: nat

fun perform_doc :: "doc_effect \<Rightarrow> doc_list \<Rightarrow> doc_list" where
  "perform_doc (AddDeleting d) s = s\<lparr>deletingIds := insert d (deletingIds s)\<rparr>"
| "perform_doc (DeleteDocumentRequest d) s = s"
| "perform_doc DocumentDeletedCallback s = s\<lparr>deleted_callbacks := Suc (deleted_callbacks s)\<rparr>"
| "perform_doc (Alert m) s = s\<lparr>alerts := alerts s @ [m]\<rparr>"
| "perform_doc (RemoveDeleting d) s = s\<lparr>deletingIds := deletingIds s - {d}\<rparr>"

fun run_doc :: "doc_effect list \<Rightarrow> doc_list \<Rightarrow> doc_list" where
  "run_doc [] s = s"
| "run_doc (e # es) s = run_doc es (perform_doc e s)"

text \<open>
  \<^verbatim>\<open>handleDelete\<close>: \<open>confirmed\<close> is the answer of \<^verbatim>\<open>window.confirm\<close>, \<open>callback_throws\<close>
  tells whether \<^verbatim>\<open>onDocumentDeleted()\<close> throws (it is called inside the \<^verbatim>\<open>try\<close>). The
  \<^verbatim>\<open>finally\<close> block runs after the \<^verbatim>\<open>try\<close> and after the \<^verbatim>\<open>catch\<close>.
\<close>

definition handleDelete ::
  "bool \<Rightarrow> ('e, unit) settled \<Rightarrow> bool \<Rightarrow> string \<Rightarrow> doc_effect list" where
  "handleDelete confirmed deleteDocument callback_throws documentId =
     (if confirmed then
        AddDeleting documentId # DeleteDocumentRequest documentId #
        (case deleteDocument of
           NeverSettles \<Rightarrow> []
         | Rejected err \<Rightarrow>
             [Alert ''Erreur lors de la suppression du document'', RemoveDeleting documentId]
         | Resolved u \<Rightarrow>
             DocumentDeletedCallback #
             (if callback_throws then [Alert ''Erreur lors de la suppression du document'']
              else []) @
             [RemoveDeleting documentId])
      else [])"

section \<open>The sidebar's session filter\<close>














text \<open>The code units of a text of ASCII characters.\<close>

definition utf16_of :: "string \<Rightarrow> utf16" where
  "utf16_of s = map of_char s"

section \<open>Sample inputs\<close>

text \<open>
  Concrete servers, entries, sessions and states, on which the theorems below are
  instantiated. The upload of \<^verbatim>\<open>policy.pdf\<close> with document id \<^verbatim>\<open>doc123\<close>, a first status
  \<^verbatim>\<open>processing\<close> and a second status \<^verbatim>\<open>ready\<close> with 12 chunks is the example of the
  specification.
\<close>

definition still_processing :: "nat ProcessingStatus" where
  "still_processing = \<lparr>document_id = Some ''doc123'', status = Processing,
     message = ''Processing'', filename = None, metadata = None\<rparr>"

definition always_processing :: "nat \<Rightarrow> (unit, nat ProcessingStatus) settled" where
  "always_processing n = Resolved still_processing"

definition ready_doc :: "nat ProcessingStatus" where
  "ready_doc = \<lparr>document_id = Some ''doc123'', status = Ready,
     message = ''Ready'', filename = None, metadata = Some 12\<rparr>"

definition ready_second :: "nat \<Rightarrow> (unit, nat ProcessingStatus) settled" where
  "ready_second n = (if n = 0 then Resolved still_processing else Resolved ready_doc)"

definition fails_second :: "nat \<Rightarrow> (unit, nat ProcessingStatus) settled" where
  "fails_second n = (if n = 0 then Resolved still_processing else Rejected ())"

definition global_upload_in_progress :: "nat uploads" where
  "global_upload_in_progress = no_uploads\<lparr>uploadingFiles :=
     [''policy.pdf-1700000000000'' \<mapsto>
        \<lparr>document_id = Some ''doc123'', status = Processing, message = ''Accepted'',
         filename = Some ''policy.pdf'', metadata = Some 12\<rparr>]\<rparr>"

definition always_rejects :: "nat \<Rightarrow> (unit, nat ProcessingStatus) settled" where
  "always_rejects n = Rejected ()"

definition stuck_after_upload :: "nat \<Rightarrow> (unit, nat ProcessingStatus) settled" where
  "stuck_after_upload n = NeverSettles"

text \<open>
  Two files of the same name selected in one change event: \<^verbatim>\<open>files.forEach(handleFileUpload)\<close>
  starts both uploads in the same millisecond, so both read the same \<^verbatim>\<open>Date.now()\<close>. The
  upload request of the first is rejected; that of the second is accepted and its document
  becomes ready at the second status request. In \<open>one_change_event\<close> the two handlers run
  to their \<^verbatim>\<open>await\<close> one after the other, then the rejection arrives, then the second upload
  proceeds.
\<close>

definition rejected_upload :: "nat effect list" where
  "rejected_upload =
     handleFileUpload FileUpload ''policy.pdf'' 1700000000000 (Rejected None) stuck_after_upload"

definition accepted_upload :: "nat effect list" where
  "accepted_upload =
     handleFileUpload FileUpload ''policy.pdf'' 1700000000000
       (Resolved (''doc123'', ''Accepted'')) ready_second"

definition one_change_event :: "nat effect list" where
  "one_change_event =
     take 2 rejected_upload @ take 2 accepted_upload @
     drop 2 rejected_upload @ drop 2 accepted_upload"

definition older_chat :: ChatSession where
  "older_chat = \<lparr>session_id = ''s1'', title = utf16_of ''Password Policy'',
     preview = Some (utf16_of ''How long must a password be?''),
     message_count = 4, updated_at = ''2024-05-01T10:00:00Z''\<rparr>"

definition new_chat :: ChatSession where
  "new_chat = \<lparr>session_id = ''s2'', title = utf16_of ''Nouvelle conversation'',
     preview = None,
     message_count = 0, updated_at = ''2024-05-02T09:00:00Z''\<rparr>"



definition stale_dashboard :: "(unit, unit) dashboard" where
  "stale_dashboard = \<lparr>sessions = [], currentSession = None, messages = [], documents = [],
     showDocumentManager = False\<rparr>"

definition active_dashboard :: "(unit, unit) dashboard" where
  "active_dashboard = \<lparr>sessions = [new_chat, older_chat], currentSession = Some older_chat,
     messages = [(), ()], documents = [()], showDocumentManager = False\<rparr>"

definition nothing_deleting :: doc_list where
  "nothing_deleting = \<lparr>deletingIds = {}, alerts = [], deleted_callbacks = 0\<rparr>"

section \<open>Auxiliary facts\<close>

lemma run_append: "run (es @ fs) s = run fs (run es s)"
  by (induction es arbitrary: s) auto

lemma run_snoc2: "run (es @ [x, y]) s = perform y (perform x (run es s))"
  by (simp add: run_append)

lemma run_doc_append: "run_doc (es @ fs) s = run_doc fs (run_doc es s)"
  by (induction es arbitrary: s) auto

lemma fetch_count_simps [simp]:
  "fetch_count [] = 0"
  "fetch_count (e # es) = (if is_status_request e then Suc (fetch_count es) else fetch_count es)"
  "fetch_count (es @ fs) = fetch_count es + fetch_count fs"
  by (simp_all add: fetch_count_def)

lemma status_fetched_entry [simp]: "status (fetched_entry c f st) = status st"
  by (cases c) (simp_all add: fetched_entry_def)

lemma status_patch_entry [simp]: "status (patch_entry old st m) = st"
  by (cases old) (simp_all add: patch_entry_def)


section \<open>The branches of the polling loop\<close>

lemma poll_continues:
  assumes "server a = Resolved st" "status st \<noteq> Ready" "status st \<noteq> Error" "Suc a < maxAttempts"
  shows "poll c server k d f a =
    [GetProcessingStatus d, SetEntry k (fetched_entry c f st), Delay 2000]
      @ poll c server k d f (Suc a)"
  using assms by (subst poll.simps) simp

lemma poll_ready:
  assumes "server a = Resolved st" "status st = Ready"
  shows "poll c server k d f a =
    [GetProcessingStatus d, SetEntry k (fetched_entry c f st), Delay 3000, DeleteEntry k,
     SuccessCallback]"
  using assms by (subst poll.simps) simp

text \<open>Every effect of an upload writes the upload's own key or none.\<close>

lemma poll_error:
  assumes "server a = Resolved st" "status st = Error"
  shows "poll c server k d f a =
    [GetProcessingStatus d, SetEntry k (fetched_entry c f st)]"
  using assms by (subst poll.simps) simp

lemma poll_rejected:
  assumes "server a = Rejected err"
  shows "poll c server k d f a =
    [GetProcessingStatus d, PatchEntry k Error (communication_error_message c)]"
  using assms by (subst poll.simps) simp

lemma poll_never_settles:
  assumes "server a = NeverSettles"
  shows "poll c server k d f a = [GetProcessingStatus d]"
  using assms by (subst poll.simps) simp

lemma poll_times_out:
  assumes "server a = Resolved st" "status st \<noteq> Ready" "status st \<noteq> Error"
    "\<not> Suc a < maxAttempts"
  shows "poll c server k d f a =
    [GetProcessingStatus d, SetEntry k (fetched_entry c f st),
     PatchEntry k Error (timeout_message c)]"
  using assms by (subst poll.simps) simp

text \<open>The effects of the rounds before request \<open>n\<close>, when all of them were answered
  with a non-terminal status.\<close>

lemma poll_rounds:
  assumes "a \<le> n" "n < maxAttempts"
    and "\<forall>i. a \<le> i \<and> i < n \<longrightarrow> answers_nonterminal (server i)"
  shows "\<exists>pre. poll c server k d f a = pre @ poll c server k d f n \<and>
    fetch_count pre = n - a \<and> SuccessCallback \<notin> set pre \<and> DeleteEntry k \<notin> set pre"
  using assms
proof (induction n rule: dec_induct)
  case base
  show ?case by (intro exI [of _ "[]"]) simp
next
  case (step n)
  then obtain pre where pre: "poll c server k d f a = pre @ poll c server k d f n"
    "fetch_count pre = n - a" "SuccessCallback \<notin> set pre" "DeleteEntry k \<notin> set pre"
    by auto
  from step have "answers_nonterminal (server n)" by simp
  then obtain st where st: "server n = Resolved st" "status st \<noteq> Ready" "status st \<noteq> Error"
    by (auto simp: answers_nonterminal_def split: settled.splits)
  let ?round = "[GetProcessingStatus d, SetEntry k (fetched_entry c f st), Delay 2000]"
  have "poll c server k d f n = ?round @ poll c server k d f (Suc n)"
    using st step.prems(1) by (rule poll_continues)
  with pre have "poll c server k d f a = (pre @ ?round) @ poll c server k d f (Suc n)"
    by simp
  moreover have "fetch_count (pre @ ?round) = Suc n - a"
    using pre(2) step.hyps(1) by simp
  moreover have "SuccessCallback \<notin> set (pre @ ?round)" "DeleteEntry k \<notin> set (pre @ ?round)"
    using pre(3,4) by simp_all
  ultimately show ?case by blast
qed

section \<open>The bound of the polling loop\<close>

lemma poll_fetch_count:
  "fetch_count (poll c server k d f a) \<le> max 1 (maxAttempts - a)"
proof (induction c server k d f a rule: poll.induct)
  case (1 c server k d f a)
  show ?case
  proof (cases "server a")
    case (Resolved st)
    show ?thesis
    proof (cases "status st \<noteq> Ready \<and> status st \<noteq> Error \<and> Suc a < maxAttempts")
      case True
      with 1 Resolved have "fetch_count (poll c server k d f (Suc a)) \<le> max 1 (maxAttempts - Suc a)"
        by simp
      with True Resolved show ?thesis
        by (subst poll.simps) (simp; arith)
    next
      case False
      with Resolved show ?thesis
        by (subst poll.simps) auto
    qed
  qed (subst poll.simps, simp)+
qed

lemma poll_length:
  "length (poll c server k d f a) \<le> 3 * (maxAttempts - Suc a) + 5"
proof (induction c server k d f a rule: poll.induct)
  case (1 c server k d f a)
  show ?case
  proof (cases "server a")
    case (Resolved st)
    show ?thesis
    proof (cases "status st \<noteq> Ready \<and> status st \<noteq> Error \<and> Suc a < maxAttempts")
      case True
      with 1 Resolved have "length (poll c server k d f (Suc a)) \<le> 3 * (maxAttempts - Suc (Suc a)) + 5"
        by simp
      with True Resolved show ?thesis
        by (subst poll.simps) (simp; arith)
    next
      case False
      with Resolved show ?thesis
        by (subst poll.simps) auto
    qed
  qed (subst poll.simps, simp)+
qed

lemma poll_timeout:
  assumes "a < maxAttempts" and "\<forall>n. a \<le> n \<and> n < maxAttempts \<longrightarrow> answers_nonterminal (server n)"
  shows "fetch_count (poll c server k d f a) = maxAttempts - a \<and>
    (\<exists>es st. poll c server k d f a =
        es @ [SetEntry k (fetched_entry c f st), PatchEntry k Error (timeout_message c)] \<and>
      server (maxAttempts - 1) = Resolved st)"
  using assms
proof (induction c server k d f a rule: poll.induct)
  case (1 c server k d f a)
  from 1(2,3) have "answers_nonterminal (server a)" by simp
  then obtain st where st: "server a = Resolved st" "status st \<noteq> Ready" "status st \<noteq> Error"
    by (auto simp: answers_nonterminal_def split: settled.splits)
  show ?case
  proof (cases "Suc a < maxAttempts")
    case True
    with 1 st have IH: "fetch_count (poll c server k d f (Suc a)) = maxAttempts - Suc a \<and>
      (\<exists>es st. poll c server k d f (Suc a) =
        es @ [SetEntry k (fetched_entry c f st), PatchEntry k Error (timeout_message c)] \<and>
      server (maxAttempts - 1) = Resolved st)"
      by simp
    then obtain es st' where es: "poll c server k d f (Suc a) =
        es @ [SetEntry k (fetched_entry c f st'), PatchEntry k Error (timeout_message c)]"
        "server (maxAttempts - 1) = Resolved st'" by blast
    have "poll c server k d f a = (GetProcessingStatus d # SetEntry k (fetched_entry c f st) # Delay 2000 # es)
       @ [SetEntry k (fetched_entry c f st'), PatchEntry k Error (timeout_message c)]"
      using st True es by (subst poll.simps) simp
    moreover have "fetch_count (poll c server k d f a) = maxAttempts - a"
      using st True IH by (subst poll.simps) auto
    ultimately show ?thesis using es(2) by blast
  next
    case False
    with 1(2) have a: "a = maxAttempts - 1" by simp
    have "poll c server k d f a = [GetProcessingStatus d] @ [SetEntry k (fetched_entry c f st), PatchEntry k Error (timeout_message c)]"
      using st False by (subst poll.simps) simp
    moreover have "fetch_count (poll c server k d f a) = maxAttempts - a"
      using st False 1(2) by (subst poll.simps) auto
    ultimately show ?thesis using st(1) a by blast
  qed
qed

lemma poll_requests:
  "filter is_status_request (poll c server k d f a) =
    replicate (fetch_count (poll c server k d f a)) (GetProcessingStatus d)"
proof (induction c server k d f a rule: poll.induct)
  case (1 c server k d f a)
  show ?case
  proof (cases "server a")
    case (Resolved st)
    consider (ready) "status st = Ready" | (error) "status st = Error"
      | (continue) "status st \<noteq> Ready" "status st \<noteq> Error" "Suc a < maxAttempts"
      | (timeout) "status st \<noteq> Ready" "status st \<noteq> Error" "\<not> Suc a < maxAttempts"
      by blast
    then show ?thesis
    proof cases
      case ready
      with Resolved show ?thesis by (simp add: poll_ready [of server a st])
    next
      case error
      with Resolved show ?thesis by (simp add: poll_error [of server a st])
    next
      case continue
      with "1.IH" [OF Resolved continue] Resolved show ?thesis
        by (simp add: poll_continues [of server a st])
    next
      case timeout
      with Resolved show ?thesis by (simp add: poll_times_out [of server a st])
    qed
  next
    case (Rejected err)
    then show ?thesis by (simp add: poll_rejected [of server a err])
  next
    case NeverSettles
    then show ?thesis by (simp add: poll_never_settles)
  qed
qed

text \<open>
  Claim C1. For every upload, whatever the server answers, the polling loop sends at most
  60 status requests, each of them for the document id of the upload, and performs a
  bounded number of effects (at most 182), so it never runs unbounded: \<open>poll\<close> is a total
  function, its recursion decreasing the distance of \<^verbatim>\<open>attempts\<close> to \<open>maxAttempts\<close>. When
  each of the 60 requests is answered with a status other than \<^verbatim>\<open>ready\<close> and \<^verbatim>\<open>error\<close>,
  exactly 60 requests are sent, the last effect of the loop is the timeout update, and the
  entry then has status \<^verbatim>\<open>error\<close> and the timeout message: the text
  \<^verbatim>\<open>Timeout: Le traitement ... prend trop de temps\<close> of the component, which the statement
  spells out (the letter e with acute accent as its two UTF-8 bytes).
\<close>

theorem poll_bounded_by_maxAttempts:
  fixes server :: "nat \<Rightarrow> ('e, 'm ProcessingStatus) settled" and s :: "'m uploads"
  shows "fetch_count (pollProcessingStatus c server fileId documentId fname) \<le> 60 \<and>
    filter is_status_request (pollProcessingStatus c server fileId documentId fname) =
      replicate (fetch_count (pollProcessingStatus c server fileId documentId fname))
        (GetProcessingStatus documentId) \<and>
    length (pollProcessingStatus c server fileId documentId fname) \<le> 182 \<and>
    ((\<forall>n<60. answers_nonterminal (server n)) \<longrightarrow>
       fetch_count (pollProcessingStatus c server fileId documentId fname) = 60 \<and>
       last (pollProcessingStatus c server fileId documentId fname) =
         PatchEntry fileId Error (timeout_message c) \<and>
       map_option status
         (uploadingFiles (run (pollProcessingStatus c server fileId documentId fname) s) fileId) =
         Some Error \<and>
       map_option message
         (uploadingFiles (run (pollProcessingStatus c server fileId documentId fname) s) fileId) =
         Some (timeout_message c) \<and>
       map_option message
         (uploadingFiles (run (pollProcessingStatus c server fileId documentId fname) s) fileId) =
         Some (case c of
            FileUpload \<Rightarrow>
              ''Timeout: Le traitement s'' @ [char_of (195::nat), char_of (169::nat)] @ ''curis''
                @ [char_of (195::nat), char_of (169::nat)] @ '' prend trop de temps''
          | GlobalDocumentUpload \<Rightarrow> ''Timeout: Le traitement global prend trop de temps'') \<and>
       (\<exists>msg. map_option message
           (uploadingFiles (run (pollProcessingStatus c server fileId documentId fname) s)
              fileId) = Some msg \<and>
          prefix ''Timeout: '' msg \<and> suffix ''prend trop de temps'' msg))"
proof -
  define trace where "trace = pollProcessingStatus c server fileId documentId fname"
  have count: "fetch_count trace \<le> 60"
    using poll_fetch_count [of c server fileId documentId fname 0]
    by (simp add: trace_def pollProcessingStatus_def maxAttempts_def)
  have len: "length trace \<le> 182"
    using poll_length [of c server fileId documentId fname 0]
    by (simp add: trace_def pollProcessingStatus_def maxAttempts_def)
  have timeout: "fetch_count trace = 60 \<and>
           last trace = PatchEntry fileId Error (timeout_message c) \<and>
           map_option status (uploadingFiles (run trace s) fileId) = Some Error \<and>
           map_option message (uploadingFiles (run trace s) fileId) = Some (timeout_message c) \<and>
           map_option message (uploadingFiles (run trace s) fileId) =
             Some (case c of
            FileUpload \<Rightarrow>
              ''Timeout: Le traitement s'' @ [char_of (195::nat), char_of (169::nat)] @ ''curis''
                @ [char_of (195::nat), char_of (169::nat)] @ '' prend trop de temps''
          | GlobalDocumentUpload \<Rightarrow> ''Timeout: Le traitement global prend trop de temps'') \<and>
           (\<exists>msg. map_option message (uploadingFiles (run trace s) fileId) = Some msg \<and>
              prefix ''Timeout: '' msg \<and> suffix ''prend trop de temps'' msg)"
    if nt: "\<forall>n<60. answers_nonterminal (server n)"
  proof -
    have "fetch_count (poll c server fileId documentId fname 0) = maxAttempts - 0 \<and>
      (\<exists>es st. poll c server fileId documentId fname 0 =
        es @ [SetEntry fileId (fetched_entry c fname st), PatchEntry fileId Error (timeout_message c)] \<and>
      server (maxAttempts - 1) = Resolved st)"
      by (rule poll_timeout) (use nt in \<open>simp_all add: maxAttempts_def\<close>)
    then obtain es st where n: "fetch_count trace = 60"
      and es: "trace = es @ [SetEntry fileId (fetched_entry c fname st),
                 PatchEntry fileId Error (timeout_message c)]"
      by (auto simp: trace_def pollProcessingStatus_def maxAttempts_def)
    have "uploadingFiles (run trace s) fileId =
        Some ((fetched_entry c fname st)\<lparr>status := Error, message := timeout_message c\<rparr>)"
      unfolding es run_snoc2 by (simp add: patch_entry_def)
    then have msg: "map_option message (uploadingFiles (run trace s) fileId) =
        Some (timeout_message c)"
      by simp
    have literal: "timeout_message c = (case c of
              FileUpload \<Rightarrow>
                ''Timeout: Le traitement s'' @ [char_of (195::nat), char_of (169::nat)] @ ''curis''
                  @ [char_of (195::nat), char_of (169::nat)] @ '' prend trop de temps''
            | GlobalDocumentUpload \<Rightarrow> ''Timeout: Le traitement global prend trop de temps'')"
      by (cases c) (simp_all add: timeout_message_def e_acute_def)
    have "prefix ''Timeout: '' (timeout_message c)"
      by (cases c) (simp_all add: timeout_message_def)
    moreover have "suffix ''prend trop de temps'' (timeout_message c)"
      by (cases c) (simp_all add: timeout_message_def suffix_def)
    ultimately have "\<exists>msg. map_option message (uploadingFiles (run trace s) fileId) = Some msg \<and>
        prefix ''Timeout: '' msg \<and> suffix ''prend trop de temps'' msg"
      using msg by blast
    moreover have "map_option message (uploadingFiles (run trace s) fileId) =
        Some (case c of
              FileUpload \<Rightarrow>
                ''Timeout: Le traitement s'' @ [char_of (195::nat), char_of (169::nat)] @ ''curis''
                  @ [char_of (195::nat), char_of (169::nat)] @ '' prend trop de temps''
            | GlobalDocumentUpload \<Rightarrow> ''Timeout: Le traitement global prend trop de temps'')"
      using msg literal by simp
    moreover have "map_option status (uploadingFiles (run trace s) fileId) = Some Error"
      using \<open>uploadingFiles (run trace s) fileId =
        Some ((fetched_entry c fname st)\<lparr>status := Error, message := timeout_message c\<rparr>)\<close>
      by simp
    moreover have "last trace = PatchEntry fileId Error (timeout_message c)"
      using es by simp
    ultimately show ?thesis
      using n msg by blast
  qed
  have requests: "filter is_status_request trace =
      replicate (fetch_count trace) (GetProcessingStatus documentId)"
    unfolding trace_def pollProcessingStatus_def by (rule poll_requests)
  from count requests len timeout show ?thesis
    unfolding trace_def by blast
qed

theorem poll_bounded_by_maxAttempts_witness:
  "list_all (\<lambda>n. answers_nonterminal (always_processing n)) [0..<60] \<and>
   fetch_count (pollProcessingStatus FileUpload always_processing
      ''policy.pdf-1700000000000'' ''doc123'' ''policy.pdf'') = 60 \<and>
   last (pollProcessingStatus FileUpload always_processing
      ''policy.pdf-1700000000000'' ''doc123'' ''policy.pdf'') =
     PatchEntry ''policy.pdf-1700000000000'' Error (timeout_message FileUpload) \<and>
   map_option status (uploadingFiles (run (pollProcessingStatus FileUpload always_processing
      ''policy.pdf-1700000000000'' ''doc123'' ''policy.pdf'') no_uploads)
      ''policy.pdf-1700000000000'') = Some Error \<and>
   map_option message (uploadingFiles (run (pollProcessingStatus FileUpload always_processing
      ''policy.pdf-1700000000000'' ''doc123'' ''policy.pdf'') no_uploads)
      ''policy.pdf-1700000000000'') =
     Some (''Timeout: Le traitement s'' @ [char_of (195::nat), char_of (169::nat)] @ ''curis''
        @ [char_of (195::nat), char_of (169::nat)] @ '' prend trop de temps'') \<and>
   map_option message (uploadingFiles (run (pollProcessingStatus GlobalDocumentUpload
      always_processing ''policy.pdf-1700000000000'' ''doc123'' ''policy.pdf'') no_uploads)
      ''policy.pdf-1700000000000'') =
     Some ''Timeout: Le traitement global prend trop de temps''"
proof -
  have h: "\<forall>n<60. answers_nonterminal (always_processing n)"
    by (simp add: answers_nonterminal_def always_processing_def still_processing_def)
  then have "list_all (\<lambda>n. answers_nonterminal (always_processing n)) [0..<60]"
    by (simp add: list_all_iff)
  with h show ?thesis
    using poll_bounded_by_maxAttempts [where c = FileUpload and server = always_processing
        and fileId = "''policy.pdf-1700000000000''" and documentId = "''doc123''"
        and fname = "''policy.pdf''" and s = no_uploads]
      poll_bounded_by_maxAttempts [where c = GlobalDocumentUpload and server = always_processing
        and fileId = "''policy.pdf-1700000000000''" and documentId = "''doc123''"
        and fname = "''policy.pdf''" and s = no_uploads]
    by simp
qed

section \<open>A failed status request\<close>

text \<open>
  Claim C6. When the status request number \<open>n\<close> of an upload's loop throws (the requests
  before it having been answered with a non-terminal status), the loop ends there: its
  last two effects are that request and the update that sets the entry's status to
  \<^verbatim>\<open>error\<close> with the communication error message. The loop has then sent \<open>n + 1\<close>
  requests, so the failed request is the last one and is not sent again.
\<close>

theorem fetch_exception_ends_loop:
  fixes server :: "nat \<Rightarrow> ('e, 'm ProcessingStatus) settled" and s :: "'m uploads"
  assumes "n < maxAttempts"
    and "\<forall>i<n. answers_nonterminal (server i)"
    and "server n = Rejected err"
  shows "\<exists>pre. pollProcessingStatus c server fileId documentId fname =
        pre @ [GetProcessingStatus documentId,
               PatchEntry fileId Error (communication_error_message c)] \<and>
      fetch_count pre = n \<and>
      fetch_count (pollProcessingStatus c server fileId documentId fname) = Suc n \<and>
      map_option status
        (uploadingFiles (run (pollProcessingStatus c server fileId documentId fname) s) fileId) =
        Some Error \<and>
      map_option message
        (uploadingFiles (run (pollProcessingStatus c server fileId documentId fname) s) fileId) =
        Some (communication_error_message c)"
proof -
  from assms(1,2) obtain pre where pre:
    "poll c server fileId documentId fname 0 = pre @ poll c server fileId documentId fname n"
    "fetch_count pre = n"
    using poll_rounds [of 0 n server c fileId documentId fname] by auto
  let ?end = "[GetProcessingStatus documentId,
               PatchEntry fileId Error (communication_error_message c)]"
  have tr: "pollProcessingStatus c server fileId documentId fname = pre @ ?end"
    using pre(1) assms(3) poll_rejected [of server n err c fileId documentId fname] by (simp add: pollProcessingStatus_def)
  have "uploadingFiles (run (pre @ ?end) s) fileId =
      Some (patch_entry (uploadingFiles (run pre s) fileId) Error (communication_error_message c))"
    by (simp add: run_snoc2)
  moreover have "status (patch_entry old Error m) = Error" "message (patch_entry old Error m) = m"
    for old :: "'m ProcessingStatus option" and m
    by (simp_all add: patch_entry_def split: option.splits)
  ultimately show ?thesis
    using tr pre(2) by (intro exI [of _ pre]) simp
qed

theorem fetch_exception_ends_loop_witness:
  "(1::nat) < maxAttempts \<and> list_all (\<lambda>i. answers_nonterminal (fails_second i)) [0..<1] \<and>
   fails_second 1 = Rejected () \<and>
   fetch_count (pollProcessingStatus FileUpload fails_second ''policy.pdf-1700000000000''
      ''doc123'' ''policy.pdf'') = 2 \<and>
   map_option status (uploadingFiles (run (pollProcessingStatus FileUpload fails_second
      ''policy.pdf-1700000000000'' ''doc123'' ''policy.pdf'') no_uploads)
      ''policy.pdf-1700000000000'') = Some Error \<and>
   map_option message (uploadingFiles (run (pollProcessingStatus FileUpload fails_second
      ''policy.pdf-1700000000000'' ''doc123'' ''policy.pdf'') no_uploads)
      ''policy.pdf-1700000000000'') = Some (communication_error_message FileUpload)"
proof -
  have h1: "(1::nat) < maxAttempts" by (simp add: maxAttempts_def)
  have h2: "\<forall>i<1. answers_nonterminal (fails_second i)"
    by (simp add: answers_nonterminal_def fails_second_def still_processing_def)
  have h3: "fails_second 1 = Rejected ()" by (simp add: fails_second_def)
  have h5: "list_all (\<lambda>i. answers_nonterminal (fails_second i)) [0..<1]"
    using h2 by simp
  show ?thesis
    using fetch_exception_ends_loop [OF h1 h2 h3, of FileUpload
      "''policy.pdf-1700000000000''" "''doc123''" "''policy.pdf''" no_uploads] h1 h3 h5
    by auto
qed

section \<open>The grace period after success\<close>



section \<open>The fields kept by the error updates\<close>

text \<open>
  Claim C8. The timeout update and the update after a failed request are the last effect
  of the loop. Each leaves the fields other than status and message (document id, file
  name, metadata) as they were in the entry just before it, and sets the status to
  \<^verbatim>\<open>error\<close> and the message to the timeout or communication error text.
\<close>

theorem error_updates_keep_other_fields:
  fixes server :: "nat \<Rightarrow> ('e, 'm ProcessingStatus) settled" and s :: "'m uploads"
  shows "(server a = Resolved st \<and> status st \<noteq> Ready \<and> status st \<noteq> Error \<and>
      \<not> Suc a < maxAttempts \<longrightarrow>
        last (poll c server fileId documentId fname a) =
          PatchEntry fileId Error (timeout_message c) \<and>
        other_fields (uploadingFiles (run (poll c server fileId documentId fname a) s) fileId) =
          other_fields
            (uploadingFiles (run (butlast (poll c server fileId documentId fname a)) s) fileId) \<and>
        map_option status
            (uploadingFiles (run (poll c server fileId documentId fname a) s) fileId) =
          Some Error \<and>
        map_option message
            (uploadingFiles (run (poll c server fileId documentId fname a) s) fileId) =
          Some (timeout_message c)) \<and>
    (server a = Rejected err \<longrightarrow>
        last (poll c server fileId documentId fname a) =
          PatchEntry fileId Error (communication_error_message c) \<and>
        other_fields (uploadingFiles (run (poll c server fileId documentId fname a) s) fileId) =
          other_fields
            (uploadingFiles (run (butlast (poll c server fileId documentId fname a)) s) fileId) \<and>
        map_option status
            (uploadingFiles (run (poll c server fileId documentId fname a) s) fileId) =
          Some Error \<and>
        map_option message
            (uploadingFiles (run (poll c server fileId documentId fname a) s) fileId) =
          Some (communication_error_message c))"
proof -
  have patch: "other_fields (Some (patch_entry old Error m)) = other_fields old"
      "status (patch_entry old Error m) = Error" "message (patch_entry old Error m) = m"
    for old :: "'m ProcessingStatus option" and m
    by (simp_all add: patch_entry_def other_fields_def split: option.splits)
  show ?thesis
  proof (intro conjI impI)
    assume "server a = Resolved st \<and> status st \<noteq> Ready \<and> status st \<noteq> Error \<and>
      \<not> Suc a < maxAttempts"
    then have tr: "poll c server fileId documentId fname a =
      [GetProcessingStatus documentId, SetEntry fileId (fetched_entry c fname st),
       PatchEntry fileId Error (timeout_message c)]"
      using poll_times_out [of server a st c fileId documentId fname] by simp
    show "last (poll c server fileId documentId fname a) =
          PatchEntry fileId Error (timeout_message c)"
      and "other_fields (uploadingFiles (run (poll c server fileId documentId fname a) s) fileId) =
          other_fields
            (uploadingFiles (run (butlast (poll c server fileId documentId fname a)) s) fileId)"
      and "map_option status
            (uploadingFiles (run (poll c server fileId documentId fname a) s) fileId) =
          Some Error"
      and "map_option message
            (uploadingFiles (run (poll c server fileId documentId fname a) s) fileId) =
          Some (timeout_message c)"
      unfolding tr by (simp_all add: patch)
  next
    assume "server a = Rejected err"
    then have tr: "poll c server fileId documentId fname a =
      [GetProcessingStatus documentId, PatchEntry fileId Error (communication_error_message c)]"
      using poll_rejected [of server a err c fileId documentId fname] by simp
    show "last (poll c server fileId documentId fname a) =
          PatchEntry fileId Error (communication_error_message c)"
      and "other_fields (uploadingFiles (run (poll c server fileId documentId fname a) s) fileId) =
          other_fields
            (uploadingFiles (run (butlast (poll c server fileId documentId fname a)) s) fileId)"
      and "map_option status
            (uploadingFiles (run (poll c server fileId documentId fname a) s) fileId) =
          Some Error"
      and "map_option message
            (uploadingFiles (run (poll c server fileId documentId fname a) s) fileId) =
          Some (communication_error_message c)"
      unfolding tr by (simp_all add: patch)
  qed
qed

theorem error_updates_keep_other_fields_witness:
  "always_processing 59 = Resolved still_processing \<and> status still_processing \<noteq> Ready \<and>
   status still_processing \<noteq> Error \<and> \<not> Suc 59 < maxAttempts \<and>
   other_fields (uploadingFiles (run (poll GlobalDocumentUpload always_processing
       ''policy.pdf-1700000000000'' ''doc123'' ''policy.pdf'' 59) global_upload_in_progress)
       ''policy.pdf-1700000000000'') =
     (Some ''doc123'', Some ''policy.pdf'', None) \<and>
   always_rejects 0 = Rejected () \<and>
   other_fields (uploadingFiles (run (poll GlobalDocumentUpload always_rejects
       ''policy.pdf-1700000000000'' ''doc123'' ''policy.pdf'' 0) global_upload_in_progress)
       ''policy.pdf-1700000000000'') =
     (Some ''doc123'', Some ''policy.pdf'', Some 12) \<and>
   map_option status (uploadingFiles (run (poll GlobalDocumentUpload always_rejects
       ''policy.pdf-1700000000000'' ''doc123'' ''policy.pdf'' 0) global_upload_in_progress)
       ''policy.pdf-1700000000000'') = Some Error"
proof -
  have h: "always_processing 59 = Resolved still_processing" "status still_processing \<noteq> Ready"
    "status still_processing \<noteq> Error" "\<not> Suc 59 < maxAttempts" "always_rejects 0 = Rejected ()"
    by (simp_all add: always_processing_def still_processing_def maxAttempts_def always_rejects_def)
  have t: "butlast (poll GlobalDocumentUpload always_processing
       ''policy.pdf-1700000000000'' ''doc123'' ''policy.pdf'' 59) =
     [GetProcessingStatus ''doc123'', SetEntry ''policy.pdf-1700000000000''
        (fetched_entry GlobalDocumentUpload ''policy.pdf'' still_processing)]"
    using h by (subst poll.simps) simp
  have r: "butlast (poll GlobalDocumentUpload always_rejects
       ''policy.pdf-1700000000000'' ''doc123'' ''policy.pdf'' 0) = [GetProcessingStatus ''doc123'']"
    using h by (subst poll.simps) simp
  show ?thesis
    using h
      error_updates_keep_other_fields [of always_processing 59 still_processing
        GlobalDocumentUpload "''policy.pdf-1700000000000''" "''doc123''" "''policy.pdf''"
        global_upload_in_progress "()"]
      error_updates_keep_other_fields [of always_rejects 0 still_processing
        GlobalDocumentUpload "''policy.pdf-1700000000000''" "''doc123''" "''policy.pdf''"
        global_upload_in_progress "()"]
    by (simp add: t r other_fields_def fetched_entry_def still_processing_def
        global_upload_in_progress_def no_uploads_def)
qed

section \<open>The sequence of observed statuses\<close>

lemma remdups_adj_three_runs:
  assumes "a \<noteq> b" "b \<noteq> c" "a \<noteq> c"
  shows "remdups_adj (replicate i a @ replicate n b @ replicate m c) =
    (if i = 0 then [] else [a]) @ (if n = 0 then [] else [b]) @ (if m = 0 then [] else [c])"
proof -
  have two: "remdups_adj (replicate n x @ replicate m y) =
      (if n = 0 then [] else [x]) @ (if m = 0 then [] else [y])" if "x \<noteq> y" for n m and x y :: 'a
    using that by (subst remdups_adj_append') (auto simp: remdups_adj_replicate)
  show ?thesis
  proof (cases "n = 0")
    case True
    with assms two [of a c i m] show ?thesis by simp
  next
    case False
    then have "remdups_adj (replicate i a @ replicate n b @ replicate m c) =
        remdups_adj (replicate i a) @ remdups_adj (replicate n b @ replicate m c)"
      using assms by (subst remdups_adj_append') auto
    with assms two [of b c n m] show ?thesis
      by (simp add: remdups_adj_replicate)
  qed
qed

text \<open>While the entry is \<^verbatim>\<open>processing\<close>, the loop shows \<^verbatim>\<open>processing\<close> and then at most one
  terminal status.\<close>

lemma observed_poll:
  assumes srv: "\<forall>n st. server n = Resolved st \<longrightarrow> status st \<noteq> Uploading"
    and "uploadingFiles s k = Some v" and "status v = Processing"
  shows "\<exists>n m T. (T = Ready \<or> T = Error) \<and>
    observed k (poll c server k d f a) s = replicate n Processing @ replicate m T"
  using assms
proof (induction c server k d f a arbitrary: s v rule: poll.induct)
  case (1 c server k d f a)
  note srv = "1.prems"(1) and entry = "1.prems"(2,3)
  show ?case
  proof (cases "server a")
    case NeverSettles
    then have "observed k (poll c server k d f a) s = replicate 1 Processing @ replicate 0 Ready"
      using entry by (subst poll.simps) simp
    then show ?thesis by blast
  next
    case (Rejected err)
    then have "observed k (poll c server k d f a) s = replicate 1 Processing @ replicate 1 Error"
      using entry by (simp add: poll_rejected)
    then show ?thesis by blast
  next
    case (Resolved st)
    with srv have nu: "status st \<noteq> Uploading" by blast
    show ?thesis
    proof (cases "status st")
      case Uploading
      with nu show ?thesis by simp
    next
      case Ready
      with Resolved entry
      have "observed k (poll c server k d f a) s = replicate 1 Processing @ replicate 2 Ready"
        by (simp add: poll_ready numeral_2_eq_2)
      then show ?thesis by blast
    next
      case Error
      with Resolved entry
      have "observed k (poll c server k d f a) s = replicate 1 Processing @ replicate 1 Error"
        by (subst poll.simps) simp
      then show ?thesis by blast
    next
      case Processing
      show ?thesis
      proof (cases "Suc a < maxAttempts")
        case True
        let ?s' = "perform (Delay 2000) (perform (SetEntry k (fetched_entry c f st))
          (perform (GetProcessingStatus d) s))"
        have "uploadingFiles ?s' k = Some (fetched_entry c f st)"
          "status (fetched_entry c f st) = Processing"
          using Processing by simp_all
        with "1.IH" [OF Resolved _ _ True srv, of ?s' "fetched_entry c f st"] Processing
        obtain n m T where T: "T = Ready \<or> T = Error"
          and obs: "observed k (poll c server k d f (Suc a)) ?s' =
            replicate n Processing @ replicate m T"
          by auto
        have "observed k (poll c server k d f a) s =
            replicate (Suc (Suc (Suc n))) Processing @ replicate m T"
          using Resolved Processing True entry obs
          by (simp add: poll_continues [of server a st])
        with T show ?thesis by blast
      next
        case False
        with Resolved Processing entry
        have "observed k (poll c server k d f a) s = replicate 2 Processing @ replicate 1 Error"
          by (simp add: poll_times_out [of server a st] numeral_2_eq_2)
        then show ?thesis by blast
      qed
    qed
  qed
qed

lemma observed_handleFileUpload:
  assumes srv: "\<forall>n st. server n = Resolved st \<longrightarrow> status st \<noteq> Uploading"
  shows "\<exists>n m T. (T = Ready \<or> T = Error) \<and>
    observed (fileId_of name now) (handleFileUpload c name now upload server) s =
      replicate 2 Uploading @ replicate n Processing @ replicate m T"
proof (cases upload)
  case NeverSettles
  then have "observed (fileId_of name now) (handleFileUpload c name now upload server) s =
      replicate 2 Uploading @ replicate 0 Processing @ replicate 0 Ready"
    by (simp add: handleFileUpload_def Let_def new_entry_def numeral_2_eq_2)
  then show ?thesis by blast
next
  case (Rejected detail)
  then have "observed (fileId_of name now) (handleFileUpload c name now upload server) s =
      replicate 2 Uploading @ replicate 0 Processing @ replicate 1 Error"
    by (simp add: handleFileUpload_def Let_def new_entry_def numeral_2_eq_2)
  then show ?thesis by blast
next
  case (Resolved r)
  obtain documentId msg where r: "r = (documentId, msg)" by (cases r)
  let ?k = "fileId_of name now"
  let ?s' = "perform (SetEntry ?k (new_entry c documentId Processing msg name))
     (perform (UploadRequest name)
       (perform (SetEntry ?k (new_entry c ?k Uploading (uploading_message c) name)) s))"
  have "uploadingFiles ?s' ?k = Some (new_entry c documentId Processing msg name)"
    "status (new_entry c documentId Processing msg name :: 'a ProcessingStatus) = Processing"
    by (simp_all add: new_entry_def)
  from observed_poll [OF srv this, of c documentId name 0]
  obtain n m T where T: "T = Ready \<or> T = Error"
    and obs: "observed ?k (poll c server ?k documentId name 0) ?s' =
      replicate n Processing @ replicate m T"
    by blast
  have "observed ?k (handleFileUpload c name now upload server) s =
      replicate 2 Uploading @ replicate (Suc n) Processing @ replicate m T"
    using Resolved r obs
    by (simp add: handleFileUpload_def Let_def pollProcessingStatus_def new_entry_def numeral_2_eq_2)
  with T show ?thesis by blast
qed

text \<open>
  One upload alone under its key. Provided that no status request is answered with the
  status \<^verbatim>\<open>uploading\<close>, the statuses observed under the key are \<^verbatim>\<open>uploading\<close>, then
  \<^verbatim>\<open>processing\<close> any number of times, then one terminal status (\<^verbatim>\<open>ready\<close> or \<^verbatim>\<open>error\<close>) any
  number of times. Without the repetitions this is a subsequence of (uploading, processing,
  ready) or of (uploading, processing, error); no status is followed by an earlier one, and
  nothing but the same terminal status follows a terminal status.
\<close>

theorem status_sequence_monotone:
  fixes server :: "nat \<Rightarrow> ('e, 'm ProcessingStatus) settled" and s :: "'m uploads"
  assumes "\<forall>n st. server n = Resolved st \<longrightarrow> status st \<noteq> Uploading"
  shows "(subseq
        (remdups_adj (observed (fileId_of name now) (handleFileUpload c name now upload server) s))
        [Uploading, Processing, Ready] \<or>
      subseq
        (remdups_adj (observed (fileId_of name now) (handleFileUpload c name now upload server) s))
        [Uploading, Processing, Error]) \<and>
    (\<exists>n m T. (T = Ready \<or> T = Error) \<and>
      observed (fileId_of name now) (handleFileUpload c name now upload server) s =
        replicate 2 Uploading @ replicate n Processing @ replicate m T)"
proof -
  from observed_handleFileUpload [OF assms, of name now c upload s]
  obtain n m T where T: "T = Ready \<or> T = Error"
    and obs: "observed (fileId_of name now) (handleFileUpload c name now upload server) s =
        replicate 2 Uploading @ replicate n Processing @ replicate m T"
    by blast
  from T have "remdups_adj (replicate 2 Uploading @ replicate n Processing @ replicate m T) =
      [Uploading] @ (if n = 0 then [] else [Processing]) @ (if m = 0 then [] else [T])"
    by (subst remdups_adj_three_runs) auto
  with T obs have "subseq
        (remdups_adj (observed (fileId_of name now) (handleFileUpload c name now upload server) s))
        [Uploading, Processing, Ready] \<or>
      subseq
        (remdups_adj (observed (fileId_of name now) (handleFileUpload c name now upload server) s))
        [Uploading, Processing, Error]"
    by auto
  with T obs show ?thesis by blast
qed

theorem status_sequence_monotone_witness:
  "\<not> (\<exists>n st. ready_second n = Resolved st \<and> status st = Uploading) \<and>
   observed (fileId_of ''policy.pdf'' 1700000000000)
     (handleFileUpload FileUpload ''policy.pdf'' 1700000000000
        (Resolved (''doc123'', ''Accepted'')) ready_second) no_uploads =
     [Uploading, Uploading, Processing, Processing, Processing, Processing, Processing,
      Ready, Ready] \<and>
   subseq
     (remdups_adj (observed (fileId_of ''policy.pdf'' 1700000000000)
       (handleFileUpload FileUpload ''policy.pdf'' 1700000000000
          (Resolved (''doc123'', ''Accepted'')) ready_second) no_uploads))
     [Uploading, Processing, Ready]"
proof -
  have h: "\<forall>n st. ready_second n = Resolved st \<longrightarrow> status st \<noteq> Uploading"
    by (auto simp: ready_second_def still_processing_def ready_doc_def)
  have p1: "poll FileUpload ready_second k ''doc123'' ''policy.pdf'' (Suc 0) =
      [GetProcessingStatus ''doc123'', SetEntry k ready_doc, Delay 3000, DeleteEntry k,
       SuccessCallback]" for k
    by (subst poll.simps) (simp add: ready_second_def fetched_entry_def ready_doc_def)
  have p0: "poll FileUpload ready_second k ''doc123'' ''policy.pdf'' 0 =
      [GetProcessingStatus ''doc123'', SetEntry k still_processing, Delay 2000]
      @ poll FileUpload ready_second k ''doc123'' ''policy.pdf'' (Suc 0)" for k
    by (subst poll.simps)
      (simp add: ready_second_def fetched_entry_def maxAttempts_def still_processing_def)
  have obs: "observed (fileId_of ''policy.pdf'' 1700000000000)
     (handleFileUpload FileUpload ''policy.pdf'' 1700000000000
        (Resolved (''doc123'', ''Accepted'')) ready_second) no_uploads =
     [Uploading, Uploading, Processing, Processing, Processing, Processing, Processing,
      Ready, Ready]"
    by (simp add: handleFileUpload_def Let_def pollProcessingStatus_def p0 p1 new_entry_def
        still_processing_def ready_doc_def)
  from status_sequence_monotone [OF h, of "''policy.pdf''" 1700000000000 FileUpload
      "Resolved (''doc123'', ''Accepted'')" no_uploads] obs h
  show ?thesis by simp
qed

section \<open>The local keys\<close>

lemma of_char_digit_char: "d < 10 \<Longrightarrow> of_char (digit_char d) = 48 + d"
  by (simp add: digit_char_def)

lemma digit_char_neq_hyphen: "d < 10 \<Longrightarrow> digit_char d \<noteq> CHR ''-''"
proof
  assume d: "d < 10" and eq: "digit_char d = CHR ''-''"
  from eq have "(of_char (digit_char d) :: nat) = of_char (CHR ''-'')" by simp
  with d show False by (simp add: of_char_digit_char)
qed

lemma digit_char_inj: "d < 10 \<Longrightarrow> e < 10 \<Longrightarrow> digit_char d = digit_char e \<Longrightarrow> d = e"
proof -
  assume d: "d < 10" and e: "e < 10" and eq: "digit_char d = digit_char e"
  from eq have "(of_char (digit_char d) :: nat) = of_char (digit_char e)" by simp
  with d e show "d = e" by (simp add: of_char_digit_char)
qed

lemma decimal_small: "n < 10 \<Longrightarrow> decimal n = [digit_char n]"
  by (subst decimal.simps) simp

lemma decimal_large:
  "\<not> n < 10 \<Longrightarrow> decimal n = decimal (n div 10) @ [digit_char (n mod 10)]"
  by (subst decimal.simps) simp

lemma decimal_not_Nil: "decimal n \<noteq> []"
  by (cases "n < 10") (simp_all add: decimal_small decimal_large)

lemma hyphen_notin_decimal: "CHR ''-'' \<notin> set (decimal n)"
proof (induction n rule: decimal.induct)
  case (1 n)
  show ?case
  proof (cases "n < 10")
    case True
    then show ?thesis
      using digit_char_neq_hyphen [of n] by (auto simp: decimal_small)
  next
    case False
    with 1 have "CHR ''-'' \<notin> set (decimal (n div 10))" by simp
    moreover have "digit_char (n mod 10) \<noteq> CHR ''-''"
      by (rule digit_char_neq_hyphen) simp
    ultimately show ?thesis
      using False by (auto simp: decimal_large)
  qed
qed

lemma decimal_inj: "decimal n = decimal m \<Longrightarrow> n = m"
proof (induction n arbitrary: m rule: decimal.induct)
  case (1 n)
  show ?case
  proof (cases "n < 10")
    case n: True
    show ?thesis
    proof (cases "m < 10")
      case True
      with n "1.prems" show ?thesis
        by (auto simp: decimal_small dest: digit_char_inj)
    next
      case False
      with n "1.prems" show ?thesis
        using decimal_not_Nil [of "m div 10"] by (simp add: decimal_small decimal_large)
    qed
  next
    case n: False
    show ?thesis
    proof (cases "m < 10")
      case True
      with n "1.prems" show ?thesis
        using decimal_not_Nil [of "n div 10"] by (simp add: decimal_small decimal_large)
    next
      case False
      with n "1.prems" have eq: "decimal (n div 10) = decimal (m div 10)"
        "digit_char (n mod 10) = digit_char (m mod 10)"
        by (simp_all add: decimal_large)
      from "1.IH" [OF n eq(1)] have "n div 10 = m div 10" .
      moreover from eq(2) have "n mod 10 = m mod 10"
        by (rule digit_char_inj [rotated 2]) simp_all
      ultimately show ?thesis
        by (metis div_mult_mod_eq)
    qed
  qed
qed

lemma separator_splits_uniquely:
  "x \<notin> set xs \<Longrightarrow> x \<notin> set xs' \<Longrightarrow> xs @ x # ys = xs' @ x # ys' \<Longrightarrow> xs = xs' \<and> ys = ys'"
proof (induction xs arbitrary: xs')
  case Nil
  then show ?case by (cases xs') auto
next
  case (Cons a xs)
  then show ?case by (cases xs') auto
qed

lemma fileId_of_inj:
  "fileId_of name1 t1 = fileId_of name2 t2 \<longleftrightarrow> name1 = name2 \<and> t1 = t2"
proof
  assume "fileId_of name1 t1 = fileId_of name2 t2"
  then have "rev (name1 @ CHR ''-'' # decimal t1) = rev (name2 @ CHR ''-'' # decimal t2)"
    by (simp add: fileId_of_def)
  then have eq: "rev (decimal t1) @ CHR ''-'' # rev name1 =
      rev (decimal t2) @ CHR ''-'' # rev name2"
    by simp
  then have "rev (decimal t1) = rev (decimal t2) \<and> rev name1 = rev name2"
    by (rule separator_splits_uniquely [rotated 2]) (simp_all add: hyphen_notin_decimal)
  then show "name1 = name2 \<and> t1 = t2"
    by (simp add: decimal_inj)
qed simp

section \<open>Uploads in progress together\<close>

lemma perform_other_key:
  "effect_key e \<noteq> Some k \<Longrightarrow> uploadingFiles (perform e s) k = uploadingFiles s k"
  by (cases e) simp_all

lemma perform_same_entry:
  "uploadingFiles s1 k = uploadingFiles s2 k \<Longrightarrow>
    uploadingFiles (perform e s1) k = uploadingFiles (perform e s2) k"
  by (cases e) auto

lemma run_same_entry:
  "uploadingFiles s1 k = uploadingFiles s2 k \<Longrightarrow>
    uploadingFiles (run es s1) k = uploadingFiles (run es s2) k"
proof (induction es arbitrary: s1 s2)
  case Nil
  then show ?case by simp
next
  case (Cons e es)
  from Cons.prems have "uploadingFiles (perform e s1) k = uploadingFiles (perform e s2) k"
    by (rule perform_same_entry)
  then have "uploadingFiles (run es (perform e s1)) k = uploadingFiles (run es (perform e s2)) k"
    by (rule Cons.IH)
  then show ?case by simp
qed

lemma effect_key_poll:
  "e \<in> set (poll c server k d f a) \<Longrightarrow> effect_key e = None \<or> effect_key e = Some k"
proof (induction c server k d f a rule: poll.induct)
  case (1 c server k d f a)
  note mem = "1.prems"
  show ?case
  proof (cases "server a")
    case (Resolved st)
    consider (ready) "status st = Ready" | (error) "status st = Error"
      | (continue) "status st \<noteq> Ready" "status st \<noteq> Error" "Suc a < maxAttempts"
      | (timeout) "status st \<noteq> Ready" "status st \<noteq> Error" "\<not> Suc a < maxAttempts"
      by blast
    then show ?thesis
    proof cases
      case ready
      with mem Resolved show ?thesis
        by (auto simp: poll_ready [of server a st])
    next
      case error
      with mem Resolved show ?thesis
        by (auto simp: poll_error [of server a st])
    next
      case continue
      with mem Resolved
      have "e \<in> {GetProcessingStatus d, SetEntry k (fetched_entry c f st), Delay 2000} \<or>
          e \<in> set (poll c server k d f (Suc a))"
        by (simp add: poll_continues [of server a st])
      then show ?thesis
      proof
        assume "e \<in> {GetProcessingStatus d, SetEntry k (fetched_entry c f st), Delay 2000}"
        then show ?thesis by auto
      next
        assume "e \<in> set (poll c server k d f (Suc a))"
        with "1.IH" [OF Resolved continue] show ?thesis .
      qed
    next
      case timeout
      with mem Resolved show ?thesis
        by (auto simp: poll_times_out [of server a st])
    qed
  next
    case (Rejected err)
    with mem show ?thesis by (auto simp: poll_rejected [of server a err])
  next
    case NeverSettles
    with mem show ?thesis by (auto simp: poll_never_settles)
  qed
qed

lemma effect_key_handleFileUpload:
  assumes "e \<in> set (handleFileUpload c name now upload server)"
  shows "effect_key e = None \<or> effect_key e = Some (fileId_of name now)"
proof (cases upload)
  case NeverSettles
  with assms show ?thesis by (auto simp: handleFileUpload_def Let_def)
next
  case (Rejected detail)
  with assms show ?thesis by (auto simp: handleFileUpload_def Let_def)
next
  case (Resolved r)
  obtain documentId msg where "r = (documentId, msg)" by (cases r)
  with assms Resolved
  have "e \<in> {SetEntry (fileId_of name now)
          (new_entry c (fileId_of name now) Uploading (uploading_message c) name),
        UploadRequest name,
        SetEntry (fileId_of name now) (new_entry c documentId Processing msg name)} \<or>
      e \<in> set (poll c server (fileId_of name now) documentId name 0)"
    by (simp add: handleFileUpload_def Let_def pollProcessingStatus_def)
  then show ?thesis
  proof
    assume "e \<in> set (poll c server (fileId_of name now) documentId name 0)"
    then show ?thesis by (rule effect_key_poll)
  qed auto
qed

text \<open>Effects that do not write key \<open>k\<close> can be interleaved anywhere without changing
  what the other effects do to the entry of \<open>k\<close>.\<close>

lemma interleaving_keeps_entry:
  assumes "\<forall>e \<in> set xs. effect_key e \<noteq> Some k"
    and "zs \<in> shuffles xs ys"
    and "uploadingFiles s1 k = uploadingFiles s2 k"
  shows "uploadingFiles (run zs s1) k = uploadingFiles (run ys s2) k"
  using assms
proof (induction zs arbitrary: xs ys s1 s2)
  case Nil
  then show ?case by simp
next
  case (Cons z zs)
  from Cons.prems(2) consider
    (left) xs' where "xs = z # xs'" "zs \<in> shuffles xs' ys"
  | (right) ys' where "ys = z # ys'" "zs \<in> shuffles xs ys'"
    by (auto simp: Cons_in_shuffles_iff neq_Nil_conv)
  then show ?case
  proof cases
    case left
    with Cons.prems(1) have "effect_key z \<noteq> Some k" "\<forall>e \<in> set xs'. effect_key e \<noteq> Some k"
      by simp_all
    with Cons.prems(3) have "uploadingFiles (perform z s1) k = uploadingFiles s2 k"
      by (simp add: perform_other_key)
    from Cons.IH [OF \<open>\<forall>e \<in> set xs'. effect_key e \<noteq> Some k\<close> left(2) this]
    show ?thesis by simp
  next
    case right
    from Cons.prems(3) have "uploadingFiles (perform z s1) k = uploadingFiles (perform z s2) k"
      by (rule perform_same_entry)
    from Cons.IH [OF Cons.prems(1) right(2) this]
    show ?thesis using right(1) by simp
  qed
qed

lemma append_in_shuffles: "ys @ xs \<in> shuffles xs ys"
  by (induction ys) (simp_all add: Cons_in_shuffles_rightI)

text \<open>
  Uploads under distinct keys. Two uploads whose file names differ or whose starting times
  (the values of \<^verbatim>\<open>Date.now()\<close>) differ have distinct keys. Then, at every moment of every
  interleaving of the two uploads (\<open>xs\<close> and \<open>ys\<close> are the effects each has performed so
  far, \<open>zs\<close> any interleaving of them), the entry of the second upload is what the second
  upload's own effects make it, whatever the outcomes of the first upload's requests.
\<close>

theorem concurrent_uploads_independent:
  fixes serverA serverB :: "nat \<Rightarrow> ('e, 'm ProcessingStatus) settled" and s :: "'m uploads"
  assumes "nameA \<noteq> nameB \<or> nowA \<noteq> nowB"
    and "prefix xs (handleFileUpload c nameA nowA uploadA serverA)"
    and "prefix ys (handleFileUpload c nameB nowB uploadB serverB)"
    and "zs \<in> shuffles xs ys"
  shows "fileId_of nameA nowA \<noteq> fileId_of nameB nowB \<and>
    uploadingFiles (run zs s) (fileId_of nameB nowB) =
      uploadingFiles (run ys s) (fileId_of nameB nowB)"
proof -
  from assms(1) have keys: "fileId_of nameA nowA \<noteq> fileId_of nameB nowB"
    by (simp add: fileId_of_inj)
  have "\<forall>e \<in> set xs. effect_key e \<noteq> Some (fileId_of nameB nowB)"
  proof
    fix e assume "e \<in> set xs"
    with assms(2) have "e \<in> set (handleFileUpload c nameA nowA uploadA serverA)"
      by (auto simp: prefix_def)
    then have "effect_key e = None \<or> effect_key e = Some (fileId_of nameA nowA)"
      by (rule effect_key_handleFileUpload)
    with keys show "effect_key e \<noteq> Some (fileId_of nameB nowB)" by auto
  qed
  from interleaving_keeps_entry [OF this assms(4) refl] keys show ?thesis by simp
qed

theorem concurrent_uploads_independent_witness:
  "(''a.pdf'', 1700000000000::nat) \<noteq> (''b.pdf'', 1700000000000) \<and>
   handleFileUpload FileUpload ''b.pdf'' 1700000000000 (Resolved (''doc123'', ''Accepted''))
       stuck_after_upload @
     handleFileUpload FileUpload ''a.pdf'' 1700000000000 (Rejected None) stuck_after_upload
     \<in> shuffles
       (handleFileUpload FileUpload ''a.pdf'' 1700000000000 (Rejected None) stuck_after_upload)
       (handleFileUpload FileUpload ''b.pdf'' 1700000000000 (Resolved (''doc123'', ''Accepted''))
         stuck_after_upload) \<and>
   fileId_of ''a.pdf'' 1700000000000 \<noteq> fileId_of ''b.pdf'' 1700000000000 \<and>
   uploadingFiles
     (run (handleFileUpload FileUpload ''b.pdf'' 1700000000000 (Resolved (''doc123'', ''Accepted''))
         stuck_after_upload @
       handleFileUpload FileUpload ''a.pdf'' 1700000000000 (Rejected None) stuck_after_upload)
       (no_uploads :: nat uploads))
     (fileId_of ''b.pdf'' 1700000000000) =
   uploadingFiles
     (run (handleFileUpload FileUpload ''b.pdf'' 1700000000000 (Resolved (''doc123'', ''Accepted''))
         stuck_after_upload) no_uploads)
     (fileId_of ''b.pdf'' 1700000000000)"
proof -
  let ?A = "handleFileUpload FileUpload ''a.pdf'' 1700000000000 (Rejected None)
    stuck_after_upload :: nat effect list"
  let ?B = "handleFileUpload FileUpload ''b.pdf'' 1700000000000
    (Resolved (''doc123'', ''Accepted'')) stuck_after_upload :: nat effect list"
  have h1: "''a.pdf'' \<noteq> ''b.pdf'' \<or> (1700000000000::nat) \<noteq> 1700000000000" by simp
  have h2: "prefix ?A ?A" and h3: "prefix ?B ?B" by simp_all
  have h4: "?B @ ?A \<in> shuffles ?A ?B" by (rule append_in_shuffles)
  from concurrent_uploads_independent [OF h1 h2 h3 h4, where s = no_uploads] h4
  show ?thesis by simp
qed

section \<open>Two uploads under one key\<close>

text \<open>
  Claim C4 says that any two files uploaded together are tracked under distinct locally
  generated keys, and that a delayed or failed response for one of them never modifies the
  entry of the other. The key \<^verbatim>\<open>`${file.name}-${Date.now()}`\<close> is distinct for distinct
  pairs of name and time only. Here two files named \<^verbatim>\<open>policy.pdf\<close> are uploaded in the same
  millisecond: their keys are equal, and when the upload request of one is rejected after
  the other was accepted, the entry that showed the other as \<^verbatim>\<open>processing\<close> shows \<^verbatim>\<open>error\<close>.
\<close>

theorem same_name_same_time_collide:
  "fileId_of ''policy.pdf'' 1700000000000 = fileId_of ''policy.pdf'' 1700000000000 \<and>
   handleFileUpload FileUpload ''policy.pdf'' 1700000000000 (Resolved (''doc123'', ''Accepted''))
       stuck_after_upload @
     handleFileUpload FileUpload ''policy.pdf'' 1700000000000 (Rejected None) stuck_after_upload
     \<in> shuffles
       (handleFileUpload FileUpload ''policy.pdf'' 1700000000000 (Rejected None)
         stuck_after_upload)
       (handleFileUpload FileUpload ''policy.pdf'' 1700000000000
         (Resolved (''doc123'', ''Accepted'')) stuck_after_upload) \<and>
   map_option status (uploadingFiles
     (run (handleFileUpload FileUpload ''policy.pdf'' 1700000000000
         (Resolved (''doc123'', ''Accepted'')) stuck_after_upload) (no_uploads :: nat uploads))
     (fileId_of ''policy.pdf'' 1700000000000)) = Some Processing \<and>
   map_option status (uploadingFiles
     (run (handleFileUpload FileUpload ''policy.pdf'' 1700000000000
         (Resolved (''doc123'', ''Accepted'')) stuck_after_upload @
       handleFileUpload FileUpload ''policy.pdf'' 1700000000000 (Rejected None)
         stuck_after_upload) (no_uploads :: nat uploads))
     (fileId_of ''policy.pdf'' 1700000000000)) = Some Error"
  by (simp add: append_in_shuffles handleFileUpload_def Let_def pollProcessingStatus_def
      poll_never_settles stuck_after_upload_def new_entry_def run_append)

lemma shuffles_append:
  "zs1 \<in> shuffles xs1 ys1 \<Longrightarrow> zs2 \<in> shuffles xs2 ys2 \<Longrightarrow>
    zs1 @ zs2 \<in> shuffles (xs1 @ xs2) (ys1 @ ys2)"
proof (induction zs1 arbitrary: xs1 ys1)
  case Nil
  then show ?case by simp
next
  case (Cons z zs1)
  from Cons.prems(1) consider
    (left) xs' where "xs1 = z # xs'" "zs1 \<in> shuffles xs' ys1"
  | (right) ys' where "ys1 = z # ys'" "zs1 \<in> shuffles xs1 ys'"
    by (auto simp: Cons_in_shuffles_iff neq_Nil_conv)
  then show ?case
  proof cases
    case left
    from Cons.IH [OF left(2) Cons.prems(2)] left(1) show ?thesis
      by (simp add: Cons_in_shuffles_leftI)
  next
    case right
    from Cons.IH [OF right(2) Cons.prems(2)] right(1) show ?thesis
      by (simp add: Cons_in_shuffles_rightI)
  qed
qed

lemma append_in_shuffles': "xs @ ys \<in> shuffles xs ys"
  using append_in_shuffles [of xs ys] by (simp add: shuffles_commutes)

lemma take_drop_interleaving:
  "take n xs @ take m ys @ drop n xs @ drop m ys \<in> shuffles xs ys"
proof -
  have "(take n xs @ take m ys) @ (drop n xs @ drop m ys) \<in>
      shuffles (take n xs @ drop n xs) (take m ys @ drop m ys)"
    by (intro shuffles_append append_in_shuffles')
  then show ?thesis by simp
qed

text \<open>
  Claim C2 says that the statuses observed under an entry of the mapping form a subsequence
  of (uploading, processing, ready) or of (uploading, processing, error), and that
  \<^verbatim>\<open>ready\<close> and \<^verbatim>\<open>error\<close> are absorbing. With the two uploads of \<^verbatim>\<open>policy.pdf\<close> above, which
  share one key, and no status request answered with \<^verbatim>\<open>uploading\<close>, the entry shows
  \<^verbatim>\<open>uploading\<close>, then \<^verbatim>\<open>error\<close>, then \<^verbatim>\<open>processing\<close>, then \<^verbatim>\<open>ready\<close>: \<^verbatim>\<open>error\<close> is left again, and
  the sequence is a subsequence of neither.
\<close>

theorem shared_key_status_sequence:
  "one_change_event \<in> shuffles rejected_upload accepted_upload \<and>
   \<not> (\<exists>n st. ready_second n = Resolved st \<and> status st = Uploading) \<and>
   \<not> (\<exists>n st. stuck_after_upload n = Resolved st \<and> status st = Uploading) \<and>
   observed (fileId_of ''policy.pdf'' 1700000000000) one_change_event no_uploads =
     [Uploading, Uploading, Uploading, Uploading, Error, Processing, Processing, Processing,
      Processing, Processing, Ready, Ready] \<and>
   \<not> subseq
     (remdups_adj (observed (fileId_of ''policy.pdf'' 1700000000000) one_change_event no_uploads))
     [Uploading, Processing, Ready] \<and>
   \<not> subseq
     (remdups_adj (observed (fileId_of ''policy.pdf'' 1700000000000) one_change_event no_uploads))
     [Uploading, Processing, Error]"
proof -
  have sh: "one_change_event \<in> shuffles rejected_upload accepted_upload"
    unfolding one_change_event_def by (rule take_drop_interleaving)
  have srv: "\<not> (\<exists>n st. ready_second n = Resolved st \<and> status st = Uploading)"
    "\<not> (\<exists>n st. stuck_after_upload n = Resolved st \<and> status st = Uploading)"
    by (auto simp: ready_second_def still_processing_def ready_doc_def stuck_after_upload_def)
  have p1: "poll FileUpload ready_second k ''doc123'' ''policy.pdf'' (Suc 0) =
      [GetProcessingStatus ''doc123'', SetEntry k ready_doc, Delay 3000, DeleteEntry k,
       SuccessCallback]" for k
    by (subst poll.simps) (simp add: ready_second_def fetched_entry_def ready_doc_def)
  have p0: "poll FileUpload ready_second k ''doc123'' ''policy.pdf'' 0 =
      [GetProcessingStatus ''doc123'', SetEntry k still_processing, Delay 2000]
      @ poll FileUpload ready_second k ''doc123'' ''policy.pdf'' (Suc 0)" for k
    by (subst poll.simps)
      (simp add: ready_second_def fetched_entry_def maxAttempts_def still_processing_def)
  have obs: "observed (fileId_of ''policy.pdf'' 1700000000000) one_change_event no_uploads =
     [Uploading, Uploading, Uploading, Uploading, Error, Processing, Processing, Processing,
      Processing, Processing, Ready, Ready]"
    by (simp add: one_change_event_def rejected_upload_def accepted_upload_def
        handleFileUpload_def Let_def pollProcessingStatus_def p0 p1 new_entry_def
        still_processing_def ready_doc_def)
  from sh srv obs show ?thesis by simp
qed

section \<open>Deleting a chat session\<close>

text \<open>
  Claim C5. When the delete request succeeds, the session list is the previous list
  without the sessions of the deleted id, so no session of that id remains; and when the
  deleted session is the current session the handler sees, the current session becomes
  \<open>None\<close> (\<^verbatim>\<open>null\<close>) and the message list becomes empty.
\<close>

theorem deleteSession_removes_and_resets:
  fixes s :: "('msg, 'doc) dashboard" and u :: unit
  shows "sessions (deleteSession seen (Resolved u :: ('e, unit) settled) sessionId s) =
      filter (\<lambda>x. session_id x \<noteq> sessionId) (sessions s) \<and>
    sessionId \<notin> session_id `
      set (sessions (deleteSession seen (Resolved u :: ('e, unit) settled) sessionId s)) \<and>
    (seen = Some cur \<and> session_id cur = sessionId \<longrightarrow>
       currentSession (deleteSession seen (Resolved u :: ('e, unit) settled) sessionId s) = None \<and>
       messages (deleteSession seen (Resolved u :: ('e, unit) settled) sessionId s) = [])"
  by (auto simp: deleteSession_def Let_def)

theorem deleteSession_removes_and_resets_witness:
  "currentSession active_dashboard = Some older_chat \<and> session_id older_chat = ''s1'' \<and>
   sessions (deleteSession (currentSession active_dashboard) (Resolved () :: (unit, unit) settled)
      ''s1'' active_dashboard) = [new_chat] \<and>
   currentSession (deleteSession (currentSession active_dashboard)
      (Resolved () :: (unit, unit) settled) ''s1'' active_dashboard) = None \<and>
   messages (deleteSession (currentSession active_dashboard)
      (Resolved () :: (unit, unit) settled) ''s1'' active_dashboard) = []"
  using deleteSession_removes_and_resets [of "currentSession active_dashboard" "()" "''s1''"
      active_dashboard older_chat, where ?'e = unit]
  by (simp add: active_dashboard_def older_chat_def new_chat_def)

section \<open>Lists after a mutation\<close>

text \<open>
  Claim C3, as amended. After a document upload or delete, the dashboard fetches the
  document list again and, when the fetch succeeds, its document list is exactly the
  fetched one, whatever it was before; the session list is not touched. After a chat
  session is created, the session list is the session returned by the server put in front
  of the previous local list, and after a chat session is deleted it is the previous local
  list without the sessions of the deleted id: a local merge, with no fetch. Neither
  changes the document list.
\<close>

theorem lists_after_mutations:
  fixes s :: "('msg, 'doc) dashboard" and u :: unit
  shows "documents (onDocumentChange (Resolved fetched_documents :: ('e, 'doc list) settled) s) =
      fetched_documents \<and>
    sessions (onDocumentChange (Resolved fetched_documents :: ('e, 'doc list) settled) s) =
      sessions s \<and>
    sessions (createNewChat (Resolved newSession :: ('e, ChatSession) settled) s) =
      newSession # sessions s \<and>
    documents (createNewChat (Resolved newSession :: ('e, ChatSession) settled) s) = documents s \<and>
    sessions (deleteSession seen (Resolved u :: ('e, unit) settled) sessionId s) =
      filter (\<lambda>x. session_id x \<noteq> sessionId) (sessions s) \<and>
    documents (deleteSession seen (Resolved u :: ('e, unit) settled) sessionId s) = documents s"
  by (simp add: onDocumentChange_def loadDocuments_def createNewChat_def deleteSession_def Let_def)

text \<open>
  The claim C3 as stated fails for chat sessions: \<^verbatim>\<open>createNewChat\<close> and \<^verbatim>\<open>deleteSession\<close>
  change the local list and fetch nothing. When the local list lacks a session the server
  holds (the initial load failed, say, which leaves the list empty), the list after a
  create or a delete differs from what a fresh fetch would store.
\<close>

theorem session_mutations_merge_locally:
  "sessions (createNewChat (Resolved new_chat :: (unit, ChatSession) settled) stale_dashboard) \<noteq>
     sessions (loadSessions (Resolved [new_chat, older_chat] :: (unit, ChatSession list) settled)
       (createNewChat (Resolved new_chat :: (unit, ChatSession) settled) stale_dashboard)) \<and>
   sessions (deleteSession None (Resolved () :: (unit, unit) settled) ''s2''
       (stale_dashboard\<lparr>sessions := [new_chat]\<rparr>)) \<noteq>
     sessions (loadSessions (Resolved [older_chat] :: (unit, ChatSession list) settled)
       (deleteSession None (Resolved () :: (unit, unit) settled) ''s2''
         (stale_dashboard\<lparr>sessions := [new_chat]\<rparr>)))"
  by (simp add: createNewChat_def loadSessions_def deleteSession_def stale_dashboard_def
      new_chat_def)

section \<open>The set of documents being deleted\<close>

text \<open>
  Claim C9. A confirmed delete first adds the document id to \<^verbatim>\<open>deletingIds\<close> and then sends
  the delete request, so the id is in the set when the request starts. When the request
  completes, by resolving or by throwing, the last effect removes the id: the set is then
  the initial one without the id, and the id is not in it.
\<close>

theorem deleting_id_cleared_when_call_completes:
  fixes r :: "('e, unit) settled"
  shows "take 2 (handleDelete True r callback_throws documentId) =
      [AddDeleting documentId, DeleteDocumentRequest documentId] \<and>
    documentId \<in> deletingIds (run_doc [AddDeleting documentId] s) \<and>
    (r \<noteq> NeverSettles \<longrightarrow>
       last (handleDelete True r callback_throws documentId) = RemoveDeleting documentId \<and>
       deletingIds (run_doc (handleDelete True r callback_throws documentId) s) =
         deletingIds s - {documentId} \<and>
       documentId \<notin> deletingIds (run_doc (handleDelete True r callback_throws documentId) s))"
  by (cases r) (auto simp: handleDelete_def)

theorem deleting_id_cleared_when_call_completes_witness:
  "(Rejected () :: (unit, unit) settled) \<noteq> NeverSettles \<and>
   (Resolved () :: (unit, unit) settled) \<noteq> NeverSettles \<and>
   ''doc123'' \<in> deletingIds (run_doc [AddDeleting ''doc123''] nothing_deleting) \<and>
   deletingIds (run_doc (handleDelete True (Rejected () :: (unit, unit) settled) False ''doc123'')
      nothing_deleting) = {} \<and>
   deletingIds (run_doc (handleDelete True (Resolved () :: (unit, unit) settled) False ''doc123'')
      nothing_deleting) = {}"
  using deleting_id_cleared_when_call_completes [of "Rejected () :: (unit, unit) settled"
      False "''doc123''" nothing_deleting]
    deleting_id_cleared_when_call_completes [of "Resolved () :: (unit, unit) settled"
      False "''doc123''" nothing_deleting]
  by (simp add: nothing_deleting_def)

section \<open>The filtered session list\<close>









end
